theory Spec2Isabelle
  imports Main "HOL-Library.Word" "HOL-Library.Multiset" "HOL-Library.Sublist"
begin

section \<open>The ReviewSystem contract\<close>

text \<open>
  The contract \<open>ReviewSystem\<close> (App.tsx, lines 851-1003) keeps papers and their reviews.
  Scores are ciphertext handles of type \<open>euint32\<close>, produced and combined by the FHE
  library the contract imports. The library is not part of the repository, so its
  operations are a parameter of the model: a record of functions over an arbitrary
  handle type \<open>'h\<close>.
\<close>

subsection \<open>Solidity value types\<close>

type_synonym address = "160 word"
type_synonym uint256 = "256 word"
type_synonym bytes32 = "256 word"
type_synonym bytes = "8 word list"

subsection \<open>The imported FHE library\<close>

text \<open>
  \<open>fromExternal\<close> and \<open>checkSignatures\<close> can revert inside the library: \<open>None\<close> and
  \<open>False\<close> stand for that. The other operations are total.
\<close>

record 'h FHE =
  fromExternal :: "bytes32 \<Rightarrow> bytes \<Rightarrow> 'h option"
  isInitialized :: "'h \<Rightarrow> bool"
  zero :: "'h"
  add :: "'h \<Rightarrow> 'h \<Rightarrow> 'h"
  isZero :: "'h \<Rightarrow> bool"
  toBytes32 :: "'h \<Rightarrow> bytes32"
  checkSignatures :: "bytes32 list \<Rightarrow> bytes \<Rightarrow> bytes \<Rightarrow> bool"

subsection \<open>Storage\<close>

record 'h Review =
  encryptedScore :: "'h"
  encryptedComments :: string
  reviewer :: address
  submissionDate :: uint256
  isVerified :: bool

text \<open>
  The field \<open>encryptedContent\<close> is declared \<open>string\<close> in the source but is only ever
  assigned the handle \<open>FHE.fromExternal(encryptedContent, contentProof)\<close>; the model
  stores that handle.
\<close>

record 'h Paper =
  title :: string
  encryptedContent :: "'h"
  submitter :: address
  submissionDate :: uint256
  reviews :: "'h Review list"
  aggregatedScore :: "'h"
  isPublished :: bool

datatype 'h event =
    PaperSubmitted string address
  | ReviewSubmitted string address
  | ScoreAggregated string "'h"
  | PaperPublished string

datatype 'h acl_call = AllowThis "'h" | MakePubliclyDecryptable "'h"

text \<open>
  A Solidity mapping has a value at every key; a slot never written reads as the
  all-zero record. The maps below are partial, with \<open>None\<close> for a slot never written.
  Every function of the contract reads \<open>papers[paperId].title\<close> before anything else, and
  a slot never written has the empty title.
\<close>

record 'h ReviewSystem =
  papers :: "string \<rightharpoonup> 'h Paper"
  reviews :: "string \<rightharpoonup> 'h Review"
  acl :: "'h acl_call list"
  events :: "'h event list"

record env =
  msg_sender :: address
  block_timestamp :: uint256

text \<open>
  The reverts of the contract, one constructor for each \<open>require\<close> message, in the order
  of their first use in the source: "Paper already exists", "Invalid encrypted content",
  "Paper does not exist", "Invalid encrypted score", "No reviews to aggregate", "Scores
  not aggregated", "Paper already published", "Invalid review index", "Review already
  verified". The last two are reverts inside the library: \<open>InputRejected\<close> when
  \<open>FHE.fromExternal\<close> does not take an input and its proof, \<open>InvalidProof\<close> when
  \<open>FHE.checkSignatures\<close> does not take a clear value and its decryption proof.
\<close>

datatype error =
    PaperAlreadyExists
  | InvalidEncryptedContent
  | PaperDoesNotExist
  | InvalidEncryptedScore
  | NoReviewsToAggregate
  | ScoresNotAggregated
  | PaperAlreadyPublished
  | InvalidReviewIndex
  | ReviewAlreadyVerified
  | InputRejected
  | InvalidProof

definition init :: "'h ReviewSystem" where
  "init = \<lparr>papers = Map.empty, reviews = Map.empty, acl = [], events = []\<rparr>"

definition title_of :: "'h ReviewSystem \<Rightarrow> string \<Rightarrow> string" where
  "title_of s paperId = (case papers s paperId of None \<Rightarrow> [] | Some p \<Rightarrow> title p)"

definition reviews_of :: "'h ReviewSystem \<Rightarrow> string \<Rightarrow> 'h Review list" where
  "reviews_of s paperId = (case papers s paperId of None \<Rightarrow> [] | Some p \<Rightarrow> Paper.reviews p)"

subsection \<open>The key of the top-level reviews mapping\<close>

text \<open>
  \<open>abi.encodePacked(paperId, "_", uint256(n))\<close>: the bytes of the id, the byte of the
  underscore, and the 32 bytes of \<open>n\<close>, most significant first, so \<open>n\<close> is taken modulo
  \<open>2 ^ 256\<close>. (The source line that builds the key lacks one closing parenthesis; it is
  read as \<open>string(abi.encodePacked(paperId, "_", uint256(reviews.length - 1)))\<close>.)
\<close>

fun be_bytes :: "nat \<Rightarrow> nat \<Rightarrow> string" where
  "be_bytes 0 n = []"
| "be_bytes (Suc k) n = be_bytes k (n div 256) @ [char_of (n mod 256)]"

definition uint256_be :: "nat \<Rightarrow> string" where
  "uint256_be n = be_bytes 32 n"

definition review_key :: "string \<Rightarrow> nat \<Rightarrow> string" where
  "review_key paperId n = paperId @ ''_'' @ uint256_be n"

subsection \<open>The functions of the contract\<close>

text \<open>
  Each function takes the storage and returns either the revert or the new storage; the
  two views return the tuple of the source. A review index and an array length are
  natural numbers: the only arithmetic on them is \<open>reviews.length - 1\<close> after a push and
  the loop counter \<open>i++\<close> below \<open>reviews.length\<close>, and neither can wrap.
\<close>

definition submitPaper ::
  "'h FHE \<Rightarrow> env \<Rightarrow> string \<Rightarrow> string \<Rightarrow> bytes32 \<Rightarrow> bytes \<Rightarrow> 'h ReviewSystem
    \<Rightarrow> error + 'h ReviewSystem" where
  "submitPaper fhe e paperId ttl encContent contentProof s =
     (if length (title_of s paperId) \<noteq> 0 then Inl PaperAlreadyExists
      else case fromExternal fhe encContent contentProof of
        None \<Rightarrow> Inl InputRejected
      | Some h \<Rightarrow>
          if \<not> isInitialized fhe h then Inl InvalidEncryptedContent
          else Inr (s\<lparr>papers := (papers s)(paperId \<mapsto>
                        \<lparr>title = ttl, encryptedContent = h, submitter = msg_sender e,
                         submissionDate = block_timestamp e, reviews = [],
                         aggregatedScore = zero fhe, isPublished = False\<rparr>),
                      acl := acl s @ [AllowThis h, MakePubliclyDecryptable h],
                      events := events s @ [PaperSubmitted paperId (msg_sender e)]\<rparr>))"

definition submitReview ::
  "'h FHE \<Rightarrow> env \<Rightarrow> string \<Rightarrow> bytes32 \<Rightarrow> bytes \<Rightarrow> string \<Rightarrow> 'h ReviewSystem
    \<Rightarrow> error + 'h ReviewSystem" where
  "submitReview fhe e paperId encScore scoreProof comments s =
     (case papers s paperId of
        None \<Rightarrow> Inl PaperDoesNotExist
      | Some p \<Rightarrow>
          if \<not> length (title p) > 0 then Inl PaperDoesNotExist
          else (case fromExternal fhe encScore scoreProof of
            None \<Rightarrow> Inl InputRejected
          | Some h \<Rightarrow>
              if \<not> isInitialized fhe h then Inl InvalidEncryptedScore
              else
                let review = \<lparr>encryptedScore = h, encryptedComments = comments,
                              reviewer = msg_sender e, submissionDate = block_timestamp e,
                              isVerified = False\<rparr>;
                    rs = Paper.reviews p @ [review]
                in Inr (s\<lparr>papers := (papers s)(paperId \<mapsto> p\<lparr>Paper.reviews := rs\<rparr>),
                          ReviewSystem.reviews :=
                            (ReviewSystem.reviews s)(review_key paperId (length rs - 1) \<mapsto> review),
                          acl := acl s @ [AllowThis h, MakePubliclyDecryptable h],
                          events := events s @ [ReviewSubmitted paperId (msg_sender e)]\<rparr>)))"

text \<open>The \<open>for\<close> loop of \<open>aggregateScores\<close>: \<open>i\<close> runs from 0 while \<open>i < reviews.length\<close>.\<close>

function aggregate_loop :: "'h FHE \<Rightarrow> 'h Review list \<Rightarrow> nat \<Rightarrow> 'h \<Rightarrow> 'h" where
  "aggregate_loop fhe rs i totalScore =
     (if i < length rs
      then aggregate_loop fhe rs (i + 1) (add fhe totalScore (encryptedScore (rs ! i)))
      else totalScore)"
  by pat_completeness auto
termination
  by (relation "measure (\<lambda>(fhe, rs, i, t). length rs - i)") auto

declare aggregate_loop.simps [simp del]

definition aggregateScores ::
  "'h FHE \<Rightarrow> string \<Rightarrow> 'h ReviewSystem \<Rightarrow> error + 'h ReviewSystem" where
  "aggregateScores fhe paperId s =
     (case papers s paperId of
        None \<Rightarrow> Inl PaperDoesNotExist
      | Some p \<Rightarrow>
          if \<not> length (title p) > 0 then Inl PaperDoesNotExist
          else if \<not> length (Paper.reviews p) > 0 then Inl NoReviewsToAggregate
          else
            let totalScore = aggregate_loop fhe (Paper.reviews p) 0 (zero fhe)
            in Inr (s\<lparr>papers := (papers s)(paperId \<mapsto> p\<lparr>aggregatedScore := totalScore\<rparr>),
                      events := events s @ [ScoreAggregated paperId totalScore]\<rparr>))"

definition publishPaper ::
  "'h FHE \<Rightarrow> string \<Rightarrow> 'h ReviewSystem \<Rightarrow> error + 'h ReviewSystem" where
  "publishPaper fhe paperId s =
     (case papers s paperId of
        None \<Rightarrow> Inl PaperDoesNotExist
      | Some p \<Rightarrow>
          if \<not> length (title p) > 0 then Inl PaperDoesNotExist
          else if \<not> \<not> isZero fhe (aggregatedScore p) then Inl ScoresNotAggregated
          else if \<not> \<not> isPublished p then Inl PaperAlreadyPublished
          else Inr (s\<lparr>papers := (papers s)(paperId \<mapsto> p\<lparr>isPublished := True\<rparr>),
                      events := events s @ [PaperPublished paperId]\<rparr>))"

definition getPaperDetails ::
  "string \<Rightarrow> 'h ReviewSystem \<Rightarrow> error + (string \<times> address \<times> uint256 \<times> 'h \<times> bool)" where
  "getPaperDetails paperId s =
     (case papers s paperId of
        None \<Rightarrow> Inl PaperDoesNotExist
      | Some p \<Rightarrow>
          if \<not> length (title p) > 0 then Inl PaperDoesNotExist
          else Inr (title p, submitter p, Paper.submissionDate p, aggregatedScore p,
                    isPublished p))"

definition getReviewDetails ::
  "string \<Rightarrow> nat \<Rightarrow> 'h ReviewSystem \<Rightarrow> error + ('h \<times> string \<times> address \<times> uint256 \<times> bool)" where
  "getReviewDetails paperId reviewIndex s =
     (case papers s paperId of
        None \<Rightarrow> Inl PaperDoesNotExist
      | Some p \<Rightarrow>
          if \<not> length (title p) > 0 then Inl PaperDoesNotExist
          else if \<not> reviewIndex < length (Paper.reviews p) then Inl InvalidReviewIndex
          else
            let review = Paper.reviews p ! reviewIndex
            in Inr (encryptedScore review, encryptedComments review, reviewer review,
                    Review.submissionDate review, isVerified review))"

definition verifyReview ::
  "'h FHE \<Rightarrow> string \<Rightarrow> nat \<Rightarrow> bytes \<Rightarrow> bytes \<Rightarrow> 'h ReviewSystem \<Rightarrow> error + 'h ReviewSystem" where
  "verifyReview fhe paperId reviewIndex abiEncodedClearScore decryptionProof s =
     (case papers s paperId of
        None \<Rightarrow> Inl PaperDoesNotExist
      | Some p \<Rightarrow>
          if \<not> length (title p) > 0 then Inl PaperDoesNotExist
          else if \<not> reviewIndex < length (Paper.reviews p) then Inl InvalidReviewIndex
          else if \<not> \<not> isVerified (Paper.reviews p ! reviewIndex) then Inl ReviewAlreadyVerified
          else
            let cts = [toBytes32 fhe (encryptedScore (Paper.reviews p ! reviewIndex))]
            in if \<not> checkSignatures fhe cts abiEncodedClearScore decryptionProof
               then Inl InvalidProof
               else Inr (s\<lparr>papers := (papers s)(paperId \<mapsto>
                             p\<lparr>Paper.reviews := (Paper.reviews p)
                                 [reviewIndex := (Paper.reviews p ! reviewIndex)\<lparr>isVerified := True\<rparr>]\<rparr>)\<rparr>))"

definition isAvailable :: bool where
  "isAvailable = True"

subsection \<open>Transactions\<close>

datatype call =
    SubmitPaper string string bytes32 bytes
  | SubmitReview string bytes32 bytes string
  | AggregateScores string
  | PublishPaper string
  | VerifyReview string nat bytes bytes

fun step :: "'h FHE \<Rightarrow> env \<times> call \<Rightarrow> 'h ReviewSystem \<Rightarrow> error + 'h ReviewSystem" where
  "step fhe (e, SubmitPaper paperId ttl c pr) s = submitPaper fhe e paperId ttl c pr s"
| "step fhe (e, SubmitReview paperId c pr cm) s = submitReview fhe e paperId c pr cm s"
| "step fhe (e, AggregateScores paperId) s = aggregateScores fhe paperId s"
| "step fhe (e, PublishPaper paperId) s = publishPaper fhe paperId s"
| "step fhe (e, VerifyReview paperId i cv pr) s = verifyReview fhe paperId i cv pr s"

text \<open>A transaction that reverts leaves the storage as it was.\<close>

definition commit :: "'h FHE \<Rightarrow> env \<times> call \<Rightarrow> 'h ReviewSystem \<Rightarrow> 'h ReviewSystem" where
  "commit fhe t s = (case step fhe t s of Inl _ \<Rightarrow> s | Inr s' \<Rightarrow> s')"

fun exec :: "'h FHE \<Rightarrow> (env \<times> call) list \<Rightarrow> 'h ReviewSystem \<Rightarrow> 'h ReviewSystem" where
  "exec fhe [] s = s"
| "exec fhe (t # ts) s = exec fhe ts (commit fhe t s)"

subsection \<open>Observations used in the properties\<close>

text \<open>What \<open>getReviewDetails\<close> reports as \<open>isVerified\<close>; a reverting query counts as false.\<close>

definition review_verified :: "'h ReviewSystem \<Rightarrow> string \<Rightarrow> nat \<Rightarrow> bool" where
  "review_verified s paperId i =
     (case getReviewDetails paperId i s of Inl _ \<Rightarrow> False | Inr (_, _, _, _, v) \<Rightarrow> v)"

definition published :: "'h ReviewSystem \<Rightarrow> string \<Rightarrow> bool" where
  "published s paperId = (case papers s paperId of None \<Rightarrow> False | Some p \<Rightarrow> isPublished p)"

definition total_of :: "'h FHE \<Rightarrow> 'h Review list \<Rightarrow> 'h" where
  "total_of fhe rs = foldl (add fhe) (zero fhe) (map encryptedScore rs)"

definition clear_aggregate :: "('h \<Rightarrow> 32 word) \<Rightarrow> 'h ReviewSystem \<Rightarrow> string \<Rightarrow> 32 word option" where
  "clear_aggregate dec s paperId = map_option (\<lambda>p. dec (aggregatedScore p)) (papers s paperId)"

definition scores_of :: "'h ReviewSystem \<Rightarrow> string \<Rightarrow> 'h list" where
  "scores_of s paperId = map encryptedScore (reviews_of s paperId)"

definition review_content :: "'h Review \<Rightarrow> 'h \<times> string \<times> address \<times> uint256" where
  "review_content r =
     (encryptedScore r, encryptedComments r, reviewer r, Review.submissionDate r)"

definition contents_of :: "'h ReviewSystem \<Rightarrow> string \<Rightarrow> ('h \<times> string \<times> address \<times> uint256) list" where
  "contents_of s paperId = map review_content (reviews_of s paperId)"

text \<open>
  A review submission as a transaction input, and the calls that submit a list of them
  to one paper. \<open>accepted\<close> is the handle the library returns for a submission, when
  it takes the input.
\<close>

type_synonym submission = "env \<times> bytes32 \<times> bytes \<times> string"

definition review_calls :: "string \<Rightarrow> submission list \<Rightarrow> (env \<times> call) list" where
  "review_calls paperId subs = map (\<lambda>(e, c, pr, cm). (e, SubmitReview paperId c pr cm)) subs"

definition accepted :: "'h FHE \<Rightarrow> submission \<Rightarrow> 'h option" where
  "accepted fhe sub =
     (case sub of (e, c, pr, cm) \<Rightarrow>
        (case fromExternal fhe c pr of None \<Rightarrow> None
         | Some h \<Rightarrow> if isInitialized fhe h then Some h else None))"

subsection \<open>Invariants of the storage\<close>

definition titled_inv :: "'h ReviewSystem \<Rightarrow> bool" where
  "titled_inv s \<longleftrightarrow>
     (\<forall>q p. papers s q = Some p \<longrightarrow> title p = [] \<longrightarrow> Paper.reviews p = [])"

definition unaggregated :: "'h FHE \<Rightarrow> 'h ReviewSystem \<Rightarrow> string \<Rightarrow> bool" where
  "unaggregated fhe s paperId =
     (case papers s paperId of None \<Rightarrow> True | Some p \<Rightarrow> aggregatedScore p = zero fhe)"

definition publishable :: "'h FHE \<Rightarrow> 'h ReviewSystem \<Rightarrow> string \<Rightarrow> bool" where
  "publishable fhe s paperId =
     (case papers s paperId of None \<Rightarrow> False
      | Some p \<Rightarrow> title p \<noteq> [] \<and> \<not> isZero fhe (aggregatedScore p) \<and> \<not> isPublished p)"

definition publish_done :: "'h FHE \<Rightarrow> 'h ReviewSystem \<Rightarrow> string \<Rightarrow> bool" where
  "publish_done fhe s paperId =
     (case papers s paperId of None \<Rightarrow> False
      | Some p \<Rightarrow> title p \<noteq> [] \<and> \<not> isZero fhe (aggregatedScore p) \<and> isPublished p)"

definition aggregated_from :: "'h FHE \<Rightarrow> 'h Paper \<Rightarrow> bool" where
  "aggregated_from fhe p \<longleftrightarrow>
     (\<exists>n\<in>{1..length (Paper.reviews p)}.
        aggregatedScore p = total_of fhe (take n (Paper.reviews p)))"

definition paper_inv :: "'h FHE \<Rightarrow> 'h Paper \<Rightarrow> bool" where
  "paper_inv fhe p \<longleftrightarrow>
     (title p = [] \<longrightarrow> Paper.reviews p = [] \<and> \<not> isPublished p) \<and>
     (aggregatedScore p = zero fhe \<or> aggregated_from fhe p) \<and>
     (isPublished p \<longrightarrow> \<not> isZero fhe (aggregatedScore p))"

definition store_inv :: "'h FHE \<Rightarrow> 'h ReviewSystem \<Rightarrow> bool" where
  "store_inv fhe s \<longleftrightarrow> (\<forall>q p. papers s q = Some p \<longrightarrow> paper_inv fhe p)"

definition stale_inv :: "'h ReviewSystem \<Rightarrow> bool" where
  "stale_inv s \<longleftrightarrow>
     (\<forall>k r. ReviewSystem.reviews s k = Some r \<longrightarrow> \<not> isVerified r) \<and>
     (\<forall>q p i. papers s q = Some p \<longrightarrow> i < length (Paper.reviews p) \<longrightarrow>
        ReviewSystem.reviews s (review_key q i) \<noteq> None)"

definition snapshot_inv :: "'h ReviewSystem \<Rightarrow> bool" where
  "snapshot_inv s \<longleftrightarrow>
     (\<forall>q p i. papers s q = Some p \<longrightarrow> i < length (Paper.reviews p) \<longrightarrow>
        length (Paper.reviews p) \<le> 2 ^ 256 \<longrightarrow>
        ReviewSystem.reviews s (review_key q i) = Some ((Paper.reviews p ! i)\<lparr>isVerified := False\<rparr>))"

subsection \<open>A symbolic instance of the library, for concrete runs\<close>

text \<open>
  Handles are terms: the null handle, a fresh input, or the sum of two handles. The
  instance is used only to run the contract on concrete transactions. It takes an input
  when its proof is not empty, and a decryption proof when it is the low byte of each
  handle followed by the clear bytes; \<open>toy_dec\<close> is the clear value behind a handle.
\<close>

datatype ct = Null | Enc "32 word" | Sum ct ct

fun toy_dec :: "ct \<Rightarrow> 32 word" where
  "toy_dec Null = 0"
| "toy_dec (Enc v) = v"
| "toy_dec (Sum a b) = toy_dec a + toy_dec b"

fun toy_bytes32 :: "ct \<Rightarrow> bytes32" where
  "toy_bytes32 Null = 0"
| "toy_bytes32 (Enc v) = ucast v + 1"
| "toy_bytes32 (Sum a b) = 3 * toy_bytes32 a + 5 * toy_bytes32 b + 2"

definition toy_sign :: "bytes32 list \<Rightarrow> bytes \<Rightarrow> bytes" where
  "toy_sign cts clear = map ucast cts @ clear"

definition toy :: "ct FHE" where
  "toy = \<lparr>fromExternal = (\<lambda>ext pr. if pr = [] then None
                                   else Some (if ext = 0 then Null else Enc (ucast ext))),
          isInitialized = (\<lambda>h. h \<noteq> Null),
          zero = Null,
          add = Sum,
          isZero = (\<lambda>h. h = Null),
          toBytes32 = toy_bytes32,
          checkSignatures = (\<lambda>cts clear pr. pr = toy_sign cts clear)\<rparr>"

definition alice :: env where
  "alice = \<lparr>msg_sender = 10, block_timestamp = 1000\<rparr>"

definition bob :: env where
  "bob = \<lparr>msg_sender = 11, block_timestamp = 2000\<rparr>"

definition demo_calls :: "(env \<times> call) list" where
  "demo_calls = [(alice, SubmitPaper ''p1'' ''On sums'' 5 [1]),
                 (bob, SubmitReview ''p1'' 7 [1] ''good''),
                 (bob, SubmitReview ''p1'' 8 [1] ''fine''),
                 (alice, SubmitReview ''p1'' 9 [1] ''ok'')]"

definition demo :: "ct ReviewSystem" where
  "demo = exec toy demo_calls init"

definition demo_start :: "ct ReviewSystem" where
  "demo_start = commit toy (alice, SubmitPaper ''p1'' ''On sums'' 5 [1]) init"

definition demo_verified :: "ct ReviewSystem" where
  "demo_verified = commit toy (alice, VerifyReview ''p1'' 0 [7] [8, 7]) demo"

definition demo_verified_calls :: "(env \<times> call) list" where
  "demo_verified_calls = demo_calls @ [(alice, VerifyReview ''p1'' 0 [7] [8, 7])]"

definition demo_aggregated :: "ct ReviewSystem" where
  "demo_aggregated = commit toy (alice, AggregateScores ''p1'') demo"

definition demo_published :: "ct ReviewSystem" where
  "demo_published = commit toy (alice, PublishPaper ''p1'') demo_aggregated"

definition demo_published_calls :: "(env \<times> call) list" where
  "demo_published_calls =
     demo_calls @ [(alice, AggregateScores ''p1''), (alice, PublishPaper ''p1'')]"

definition demo_subs :: "submission list" where
  "demo_subs = [(bob, 7, [1], ''good''), (bob, 8, [1], ''fine''), (alice, 9, [1], ''ok'')]"

definition demo_subs' :: "submission list" where
  "demo_subs' = [(alice, 9, [1], ''ok''), (bob, 7, [1], ''good''), (bob, 8, [1], ''fine'')]"

definition demo_untitled :: "ct ReviewSystem" where
  "demo_untitled = commit toy (alice, SubmitPaper ''p1'' [] 5 [1]) init"

definition demo_late :: "ct ReviewSystem" where
  "demo_late = commit toy (bob, SubmitReview ''p1'' 6 [1] ''late'') demo"

section \<open>Properties\<close>

lemmas op_defs = submitPaper_def submitReview_def aggregateScores_def publishPaper_def
  verifyReview_def getReviewDetails_def getPaperDetails_def title_of_def reviews_of_def

lemmas demo_defs = demo_def demo_calls_def demo_verified_def commit_def init_def toy_def
  toy_sign_def alice_def bob_def Let_def

subsection \<open>Basic facts\<close>

lemma exec_append: "exec fhe (ts @ ts') s = exec fhe ts' (exec fhe ts s)"
  by (induction ts arbitrary: s) simp_all

lemma aggregate_loop_drop:
  "aggregate_loop fhe rs i t = foldl (add fhe) t (map encryptedScore (drop i rs))"
proof (induction fhe rs i t rule: aggregate_loop.induct)
  case (1 fhe rs i t)
  show ?case
  proof (cases "i < length rs")
    case True
    then have "drop i rs = rs ! i # drop (Suc i) rs"
      by (simp add: Cons_nth_drop_Suc)
    with True "1" show ?thesis
      by (subst aggregate_loop.simps) simp
  next
    case False
    then show ?thesis
      by (subst aggregate_loop.simps) simp
  qed
qed

lemma aggregate_loop_total: "aggregate_loop fhe rs 0 (zero fhe) = total_of fhe rs"
  by (simp add: aggregate_loop_drop total_of_def)

lemma total_of_snoc: "total_of fhe (rs @ [r]) = add fhe (total_of fhe rs) (encryptedScore r)"
  by (simp add: total_of_def)

lemma total_of_not_zero:
  assumes "\<forall>a b. \<not> isZero fhe (add fhe a b)" and "rs \<noteq> []"
  shows "\<not> isZero fhe (total_of fhe rs)"
proof -
  from \<open>rs \<noteq> []\<close> obtain ys y where "rs = ys @ [y]"
    by (cases rs rule: rev_cases) auto
  with assms(1) show ?thesis by (simp add: total_of_snoc)
qed

lemma submitReview_Inr:
  assumes "submitReview fhe e paperId c pr cm s = Inr s'"
  shows "\<exists>p h. papers s paperId = Some p \<and> title p \<noteq> [] \<and>
           fromExternal fhe c pr = Some h \<and> isInitialized fhe h \<and>
           s' = s\<lparr>papers := (papers s)(paperId \<mapsto> p\<lparr>Paper.reviews := Paper.reviews p @
                      [\<lparr>encryptedScore = h, encryptedComments = cm, reviewer = msg_sender e,
                        submissionDate = block_timestamp e, isVerified = False\<rparr>]\<rparr>),
                   ReviewSystem.reviews := (ReviewSystem.reviews s)
                     (review_key paperId (length (Paper.reviews p)) \<mapsto>
                        \<lparr>encryptedScore = h, encryptedComments = cm, reviewer = msg_sender e,
                         submissionDate = block_timestamp e, isVerified = False\<rparr>),
                   acl := acl s @ [AllowThis h, MakePubliclyDecryptable h],
                   events := events s @ [ReviewSubmitted paperId (msg_sender e)]\<rparr>"
  using assms
  by (auto simp: submitReview_def Let_def split: option.splits if_splits)

lemma aggregateScores_Inr:
  assumes "aggregateScores fhe paperId s = Inr s'"
  shows "\<exists>p. papers s paperId = Some p \<and> title p \<noteq> [] \<and> Paper.reviews p \<noteq> [] \<and>
           s' = s\<lparr>papers := (papers s)(paperId \<mapsto>
                     p\<lparr>aggregatedScore := total_of fhe (Paper.reviews p)\<rparr>),
                   events := events s @ [ScoreAggregated paperId (total_of fhe (Paper.reviews p))]\<rparr>"
  using assms
  by (auto simp: aggregateScores_def Let_def aggregate_loop_total split: option.splits if_splits)

lemma verifyReview_Inr:
  assumes "verifyReview fhe paperId i cv pr s = Inr s'"
  shows "\<exists>p. papers s paperId = Some p \<and> title p \<noteq> [] \<and> i < length (Paper.reviews p) \<and>
           \<not> isVerified (Paper.reviews p ! i) \<and>
           checkSignatures fhe [toBytes32 fhe (encryptedScore (Paper.reviews p ! i))] cv pr \<and>
           s' = s\<lparr>papers := (papers s)(paperId \<mapsto>
                  p\<lparr>Paper.reviews := (Paper.reviews p)
                      [i := (Paper.reviews p ! i)\<lparr>isVerified := True\<rparr>]\<rparr>)\<rparr>"
  using assms
  by (auto simp: verifyReview_def Let_def split: option.splits if_splits)

subsection \<open>The concrete run\<close>

lemma toy_zero: "isZero toy (zero toy)"
  by (simp add: toy_def)

lemma toy_add: "\<forall>a b. \<not> isZero toy (add toy a b)"
  by (simp add: toy_def)

lemma toy_dec_zero: "toy_dec (zero toy) = 0"
  by (simp add: toy_def)

lemma toy_dec_add: "\<forall>a b. toy_dec (add toy a b) = toy_dec a + toy_dec b"
  by (simp add: toy_def)

lemma demo_paper: "papers demo ''p1'' = Some
   \<lparr>title = ''On sums'', encryptedContent = Enc 5, submitter = 10, submissionDate = 1000,
    reviews = [\<lparr>encryptedScore = Enc 7, encryptedComments = ''good'', reviewer = 11,
                 submissionDate = 2000, isVerified = False\<rparr>,
               \<lparr>encryptedScore = Enc 8, encryptedComments = ''fine'', reviewer = 11,
                 submissionDate = 2000, isVerified = False\<rparr>,
               \<lparr>encryptedScore = Enc 9, encryptedComments = ''ok'', reviewer = 10,
                 submissionDate = 1000, isVerified = False\<rparr>],
    aggregatedScore = Null, isPublished = False\<rparr>"
  by (simp add: demo_defs op_defs)

lemma demo_verify_ok: "verifyReview toy ''p1'' 0 [7] [8, 7] demo = Inr demo_verified"
  by (simp add: demo_defs op_defs)

lemma demo_verified_exec: "exec toy demo_verified_calls init = demo_verified"
  by (simp add: demo_verified_calls_def exec_append demo_verified_def demo_def)

lemma demo_verified_details:
  "getReviewDetails ''p1'' 0 demo_verified = Inr (Enc 7, ''good'', 11, 2000, True)"
  by (simp add: demo_defs op_defs)

lemma demo_aggregate_ok: "aggregateScores toy ''p1'' demo = Inr demo_aggregated"
  by (simp add: demo_aggregated_def demo_defs op_defs aggregate_loop_drop)

lemma demo_publish_ok: "publishPaper toy ''p1'' demo_aggregated = Inr demo_published"
  by (simp add: demo_published_def demo_aggregated_def demo_defs op_defs aggregate_loop_drop)

lemma demo_published_exec: "exec toy demo_published_calls init = demo_published"
  by (simp add: demo_published_calls_def demo_published_def demo_aggregated_def demo_defs op_defs
      aggregate_loop_drop)

lemma demo_subs_perm: "mset demo_subs = mset demo_subs'"
  by (simp add: demo_subs_def demo_subs'_def)

lemma demo_subs_clear:
  "clear_aggregate toy_dec
     (commit toy (alice, AggregateScores ''p1'') (exec toy (review_calls ''p1'' demo_subs) demo_start))
     ''p1'' = Some 24"
  by (simp add: clear_aggregate_def review_calls_def demo_subs_def demo_start_def
        commit_def init_def toy_def alice_def bob_def Let_def op_defs aggregate_loop_drop)

lemma demo_late_ok: "submitReview toy bob ''p1'' 6 [1] ''late'' demo = Inr demo_late"
  by (simp add: demo_late_def demo_defs op_defs)

subsection \<open>Verification of a review\<close>

lemma review_verified_iff:
  "review_verified s paperId i \<longleftrightarrow>
     (\<exists>p. papers s paperId = Some p \<and> title p \<noteq> [] \<and> i < length (Paper.reviews p) \<and>
          isVerified (Paper.reviews p ! i))"
  by (auto simp: review_verified_def getReviewDetails_def Let_def split: option.splits)

lemma review_verified_step:
  assumes "review_verified s paperId i" and "step fhe t s = Inr s'"
  shows "review_verified s' paperId i"
proof -
  obtain e c where t: "t = (e, c)" by (cases t)
  from assms show ?thesis
    unfolding t review_verified_iff
    by (cases c)
       (auto simp: op_defs Let_def nth_append nth_list_update
             split: option.splits if_splits)
qed

lemma review_verified_commit:
  "review_verified s paperId i \<Longrightarrow> review_verified (commit fhe t s) paperId i"
  by (auto simp: commit_def split: sum.splits intro: review_verified_step)

lemma review_verified_exec:
  "review_verified s paperId i \<Longrightarrow> review_verified (exec fhe ts s) paperId i"
  by (induction ts arbitrary: s) (simp_all add: review_verified_commit)

lemma verifyReview_sets_verified:
  "verifyReview fhe paperId i cv pr s = Inr s' \<Longrightarrow> review_verified s' paperId i"
  by (auto dest!: verifyReview_Inr simp: review_verified_iff)

lemma verified_blocks_verify:
  "review_verified s paperId i \<Longrightarrow>
     verifyReview fhe paperId i cv pr s = Inl ReviewAlreadyVerified"
  by (auto simp: review_verified_iff verifyReview_def)

text \<open>
  C1, as the contract has it. Once \<open>verifyReview\<close> has succeeded on review \<open>i\<close> of a
  paper, every later call on that review, after any transactions \<open>ts\<close> and with any
  clear value and proof, reverts with "Review already verified": the proof is not
  looked at and the storage stays as it was. The revert carries no clear value, and the
  contract stores none.
\<close>

theorem verifyReview_again_reverts:
  assumes "verifyReview fhe paperId i cv pr s = Inr s'"
  shows "verifyReview fhe paperId i cv' pr' (exec fhe ts s') = Inl ReviewAlreadyVerified \<and>
         commit fhe (e, VerifyReview paperId i cv' pr') (exec fhe ts s') = exec fhe ts s'"
proof -
  have "review_verified (exec fhe ts s') paperId i"
    using assms by (simp add: verifyReview_sets_verified review_verified_exec)
  then have "verifyReview fhe paperId i cv' pr' (exec fhe ts s') = Inl ReviewAlreadyVerified"
    by (rule verified_blocks_verify)
  then show ?thesis by (simp add: commit_def)
qed

theorem verifyReview_again_reverts_witness:
  "verifyReview toy ''p1'' 0 [7] [8, 7] demo = Inr demo_verified \<and>
   verifyReview toy ''p1'' 0 [7] [8, 7]
     (exec toy [(bob, SubmitReview ''p1'' 6 [1] ''late'')] demo_verified)
     = Inl ReviewAlreadyVerified"
  using verifyReview_again_reverts [OF demo_verify_ok, of "[7]" "[8, 7]"
      "[(bob, SubmitReview ''p1'' 6 [1] ''late'')]" alice]
  by (simp add: demo_verify_ok)

text \<open>
  C1 as stated fails: the second call with the same inputs is a revert, not an outcome
  that returns the clear value.
\<close>

theorem verifyReview_second_call_counterexample:
  "verifyReview toy ''p1'' 0 [7] [8, 7] demo = Inr demo_verified \<and>
   verifyReview toy ''p1'' 0 [7] [8, 7] demo_verified = Inl ReviewAlreadyVerified"
  by (simp add: demo_defs op_defs)

text \<open>
  C2, as the contract has it. A successful \<open>verifyReview\<close> needs the flag \<open>isVerified\<close>
  of the review to be false, sets it to true and changes nothing else in the storage: no
  clear value is written anywhere. After that the review is reported verified in every
  later state, whatever transactions \<open>ts\<close> follow.
\<close>

theorem verifyReview_sets_flag_only:
  assumes "verifyReview fhe paperId i cv pr s = Inr s'"
  shows "\<exists>p. papers s paperId = Some p \<and> i < length (Paper.reviews p) \<and>
           \<not> isVerified (Paper.reviews p ! i) \<and>
           s' = s\<lparr>papers := (papers s)(paperId \<mapsto>
                  p\<lparr>Paper.reviews := (Paper.reviews p)
                      [i := (Paper.reviews p ! i)\<lparr>isVerified := True\<rparr>]\<rparr>)\<rparr> \<and>
           (\<forall>ts. review_verified (exec fhe ts s') paperId i)"
proof -
  from verifyReview_Inr [OF assms] obtain p where p:
    "papers s paperId = Some p" "i < length (Paper.reviews p)"
    "\<not> isVerified (Paper.reviews p ! i)"
    "s' = s\<lparr>papers := (papers s)(paperId \<mapsto>
                  p\<lparr>Paper.reviews := (Paper.reviews p)
                      [i := (Paper.reviews p ! i)\<lparr>isVerified := True\<rparr>]\<rparr>)\<rparr>"
    by blast
  have "\<forall>ts. review_verified (exec fhe ts s') paperId i"
    using assms by (simp add: verifyReview_sets_verified review_verified_exec)
  with p show ?thesis by blast
qed

theorem verifyReview_sets_flag_only_witness:
  "verifyReview toy ''p1'' 0 [7] [8, 7] demo = Inr demo_verified \<and>
   review_verified (exec toy [(bob, AggregateScores ''p1'')] demo_verified) ''p1'' 0"
proof -
  from verifyReview_sets_flag_only [OF demo_verify_ok]
  have "review_verified (exec toy [(bob, AggregateScores ''p1'')] demo_verified) ''p1'' 0"
    by blast
  with demo_verify_ok show ?thesis by (rule conjI)
qed

text \<open>
  C2 as stated fails: two successful calls that claim different clear values, 7 and 9,
  leave the same storage, so the storage does not hold the claimed clear value.
\<close>

theorem verifyReview_clear_value_counterexample:
  "verifyReview toy ''p1'' 0 [7] [8, 7] demo = Inr demo_verified \<and>
   verifyReview toy ''p1'' 0 [9] [8, 9] demo = Inr demo_verified \<and>
   [7 :: 8 word] \<noteq> [9]"
  by (simp add: demo_defs op_defs)

text \<open>
  C4. For a review that exists and is not yet verified, a clear value and proof that
  \<open>FHE.checkSignatures\<close> rejects for the review's ciphertext make \<open>verifyReview\<close> revert
  with the invalid-proof error; the storage is unchanged and the review is still
  unverified.
\<close>

theorem verifyReview_invalid_proof:
  assumes "papers s paperId = Some p" and "title p \<noteq> []"
    and "i < length (Paper.reviews p)" and "\<not> isVerified (Paper.reviews p ! i)"
    and "\<not> checkSignatures fhe [toBytes32 fhe (encryptedScore (Paper.reviews p ! i))] cv pr"
  shows "verifyReview fhe paperId i cv pr s = Inl InvalidProof \<and>
         commit fhe (e, VerifyReview paperId i cv pr) s = s \<and>
         \<not> review_verified (commit fhe (e, VerifyReview paperId i cv pr) s) paperId i"
  using assms
  by (simp add: verifyReview_def commit_def review_verified_iff)

theorem verifyReview_invalid_proof_witness:
  "\<not> checkSignatures toy [toBytes32 toy (Enc 7)] [9] [0, 0] \<and>
   verifyReview toy ''p1'' 0 [9] [0, 0] demo = Inl InvalidProof \<and>
   commit toy (alice, VerifyReview ''p1'' 0 [9] [0, 0]) demo = demo"
  using verifyReview_invalid_proof [OF demo_paper, of 0 toy "[9]" "[0, 0]" alice]
  by (simp add: toy_def toy_sign_def)

subsection \<open>Aggregation\<close>

text \<open>
  C6. \<open>aggregateScores\<close> reverts with "Paper does not exist" when the paper has no
  title, and with "No reviews to aggregate" when it has no review. Otherwise it adds the
  score handles of all the reviews with \<open>FHE.add\<close>, from \<open>FHE.zero()\<close> and in the
  order of the review index, and stores the result as the aggregated score of the paper.
  The result does not depend on the aggregate stored before (a later call overwrites
  it), and it uses no operation of the library but \<open>zero\<close> and \<open>add\<close>: the sum is
  neither decrypted nor inspected.
\<close>

theorem aggregateScores_folds_reviews:
  "(title_of s paperId = [] \<longrightarrow> aggregateScores fhe paperId s = Inl PaperDoesNotExist) \<and>
   (title_of s paperId \<noteq> [] \<and> reviews_of s paperId = [] \<longrightarrow>
      aggregateScores fhe paperId s = Inl NoReviewsToAggregate) \<and>
   (title_of s paperId \<noteq> [] \<and> reviews_of s paperId \<noteq> [] \<longrightarrow>
      (\<exists>p total. papers s paperId = Some p \<and>
         total = foldl (add fhe) (zero fhe) (map encryptedScore (Paper.reviews p)) \<and>
         aggregateScores fhe paperId s =
           Inr (s\<lparr>papers := (papers s)(paperId \<mapsto> p\<lparr>aggregatedScore := total\<rparr>),
                  events := events s @ [ScoreAggregated paperId total]\<rparr>))) \<and>
   (\<forall>p h. papers s paperId = Some p \<longrightarrow>
      aggregateScores fhe paperId (s\<lparr>papers := (papers s)(paperId \<mapsto> p\<lparr>aggregatedScore := h\<rparr>)\<rparr>)
        = aggregateScores fhe paperId s) \<and>
   (\<forall>fe ii iz tb cs.
      aggregateScores (fhe\<lparr>fromExternal := fe, isInitialized := ii, isZero := iz,
                          toBytes32 := tb, checkSignatures := cs\<rparr>) paperId s
        = aggregateScores fhe paperId s)"
  by (auto simp: aggregateScores_def title_of_def reviews_of_def Let_def aggregate_loop_drop
           split: option.splits)

theorem aggregateScores_folds_reviews_witness:
  "title_of demo ''p1'' \<noteq> [] \<and> reviews_of demo ''p1'' \<noteq> [] \<and>
   map_option aggregatedScore (papers demo_aggregated ''p1'')
     = Some (Sum (Sum (Sum Null (Enc 7)) (Enc 8)) (Enc 9)) \<and>
   title_of demo ''p2'' = [] \<and> aggregateScores toy ''p2'' demo = Inl PaperDoesNotExist"
  using aggregateScores_folds_reviews [of demo "''p1''" toy]
    aggregateScores_folds_reviews [of demo "''p2''" toy]
  by (simp add: demo_aggregated_def demo_defs op_defs)

lemma dec_foldl:
  assumes "\<forall>a b. dec (add fhe a b) = dec a + dec b"
  shows "dec (foldl (add fhe) t xs) = dec t + sum_list (map dec xs)"
  using assms by (induction xs arbitrary: t) (simp_all add: add.assoc)

lemma dec_total_of:
  assumes "dec (zero fhe) = 0" and "\<forall>a b. dec (add fhe a b) = dec a + dec b"
  shows "dec (total_of fhe rs) = sum_list (map dec (map encryptedScore rs))"
  using assms by (simp add: total_of_def dec_foldl)

lemma sum_list_mset_cong:
  fixes f :: "'a \<Rightarrow> 32 word"
  assumes "mset xs = mset ys"
  shows "sum_list (map f xs) = sum_list (map f ys)"
proof -
  have "sum_list (map f xs) = sum_mset (image_mset f (mset xs))"
    by (metis mset_map sum_mset_sum_list)
  also have "\<dots> = sum_mset (image_mset f (mset ys))"
    by (simp add: assms)
  also have "\<dots> = sum_list (map f ys)"
    by (metis mset_map sum_mset_sum_list)
  finally show ?thesis .
qed

lemma submitReview_commit:
  "title_of (commit fhe (e, SubmitReview paperId c pr cm) s) q = title_of s q"
  "clear_aggregate dec (commit fhe (e, SubmitReview paperId c pr cm) s) q = clear_aggregate dec s q"
  "scores_of (commit fhe (e, SubmitReview paperId c pr cm) s) paperId =
     scores_of s paperId @
       (if title_of s paperId = [] then []
        else case accepted fhe (e, c, pr, cm) of None \<Rightarrow> [] | Some h \<Rightarrow> [h])"
  by (auto simp: commit_def submitReview_def title_of_def clear_aggregate_def scores_of_def
        reviews_of_def accepted_def Let_def split: option.splits)

lemma exec_review_calls:
  "title_of (exec fhe (review_calls paperId subs) s) q = title_of s q \<and>
   clear_aggregate dec (exec fhe (review_calls paperId subs) s) q = clear_aggregate dec s q \<and>
   scores_of (exec fhe (review_calls paperId subs) s) paperId =
     scores_of s paperId @
       (if title_of s paperId = [] then [] else List.map_filter (accepted fhe) subs)"
proof (induction subs arbitrary: s)
  case Nil
  then show ?case by (simp add: review_calls_def)
next
  case (Cons sub subs)
  obtain e c pr cm where sub: "sub = (e, c, pr, cm)" by (cases sub)
  have calls: "review_calls paperId (sub # subs) =
      (e, SubmitReview paperId c pr cm) # review_calls paperId subs"
    by (simp add: review_calls_def sub)
  show ?case
    unfolding calls exec.simps
    by (simp add: Cons.IH submitReview_commit sub split: option.splits)
qed

lemma mset_map_filter:
  "mset xs = mset ys \<Longrightarrow> mset (List.map_filter f xs) = mset (List.map_filter f ys)"
proof -
  assume "mset xs = mset ys"
  then have "image_mset (the \<circ> f) (filter_mset (\<lambda>x. f x \<noteq> None) (mset xs)) =
             image_mset (the \<circ> f) (filter_mset (\<lambda>x. f x \<noteq> None) (mset ys))"
    by simp
  then show ?thesis
    by (simp add: List.map_filter_def comp_def)
qed

lemma aggregate_commit_clear:
  assumes "dec (zero fhe) = 0" and "\<forall>a b. dec (add fhe a b) = dec a + dec b"
  shows "clear_aggregate dec (commit fhe (e, AggregateScores paperId) s) paperId =
           (if title_of s paperId \<noteq> [] \<and> scores_of s paperId \<noteq> []
            then Some (sum_list (map dec (scores_of s paperId)))
            else clear_aggregate dec s paperId)"
  using dec_total_of [OF assms]
  by (auto simp: commit_def aggregateScores_def aggregate_loop_total Let_def title_of_def
        scores_of_def reviews_of_def clear_aggregate_def split: option.splits)

lemma aggregate_succeeds_iff:
  "(\<exists>s1. aggregateScores fhe paperId s = Inr s1) \<longleftrightarrow>
     title_of s paperId \<noteq> [] \<and> scores_of s paperId \<noteq> []"
  by (auto simp: aggregateScores_def Let_def title_of_def scores_of_def reviews_of_def
        split: option.splits)

text \<open>
  C7. Let \<open>dec\<close> give the clear value behind a handle, and let the library add
  homomorphically: \<open>dec\<close> of \<open>FHE.zero()\<close> is 0 and \<open>dec\<close> of a sum is the sum of the
  clear values (in 32 bits). Submitting the same reviews to a paper in two different
  orders, from the same storage, and then calling \<open>aggregateScores\<close> once gives
  aggregated scores with the same clear value; the call succeeds in one order exactly
  when it succeeds in the other.
\<close>

theorem aggregate_commutes:
  assumes "dec (zero fhe) = 0" and "\<forall>a b. dec (add fhe a b) = dec a + dec b"
    and "mset subs = mset subs'"
  shows "((\<exists>s1. aggregateScores fhe paperId (exec fhe (review_calls paperId subs) s) = Inr s1) =
          (\<exists>s2. aggregateScores fhe paperId (exec fhe (review_calls paperId subs') s) = Inr s2)) \<and>
         clear_aggregate dec
           (commit fhe (e, AggregateScores paperId) (exec fhe (review_calls paperId subs) s)) paperId =
         clear_aggregate dec
           (commit fhe (e', AggregateScores paperId) (exec fhe (review_calls paperId subs') s)) paperId"
proof -
  let ?s1 = "exec fhe (review_calls paperId subs) s"
  let ?s2 = "exec fhe (review_calls paperId subs') s"
  have m: "mset (scores_of ?s1 paperId) = mset (scores_of ?s2 paperId)"
    using mset_map_filter [OF assms(3), of "accepted fhe"]
    by (simp add: exec_review_calls [of fhe paperId _ s paperId dec])
  then have e: "scores_of ?s1 paperId = [] \<longleftrightarrow> scores_of ?s2 paperId = []"
    by (metis mset_zero_iff)
  have t: "title_of ?s1 paperId = title_of ?s2 paperId"
    by (simp add: exec_review_calls [of fhe paperId _ s paperId dec])
  have c: "clear_aggregate dec ?s1 paperId = clear_aggregate dec ?s2 paperId"
    by (simp add: exec_review_calls [of fhe paperId _ s paperId dec])
  show ?thesis
    unfolding aggregate_succeeds_iff aggregate_commit_clear [OF assms(1,2)]
    using sum_list_mset_cong [OF m, of dec] e t c by simp
qed

theorem aggregate_commutes_witness:
  "toy_dec (zero toy) = 0 \<and> mset demo_subs = mset demo_subs' \<and>
   clear_aggregate toy_dec
     (commit toy (alice, AggregateScores ''p1'') (exec toy (review_calls ''p1'' demo_subs) demo_start))
     ''p1'' = Some 24 \<and>
   clear_aggregate toy_dec
     (commit toy (bob, AggregateScores ''p1'') (exec toy (review_calls ''p1'' demo_subs') demo_start))
     ''p1'' = Some 24"
  using aggregate_commutes [OF toy_dec_zero toy_dec_add demo_subs_perm,
      of "''p1''" demo_start alice bob]
  by (simp add: toy_dec_zero demo_subs_perm demo_subs_clear)

subsection \<open>Publication\<close>

lemma unaggregated_init: "unaggregated fhe init paperId"
  by (simp add: unaggregated_def init_def)

lemma unaggregated_step:
  assumes "unaggregated fhe s paperId" and "step fhe t s = Inr s'"
    and "snd t \<noteq> AggregateScores paperId"
  shows "unaggregated fhe s' paperId"
proof -
  obtain e c where t: "t = (e, c)" by (cases t)
  from assms show ?thesis
    unfolding t unaggregated_def
    by (cases c) (auto simp: op_defs Let_def split: option.splits if_splits)
qed

lemma unaggregated_exec:
  "unaggregated fhe s paperId \<Longrightarrow> \<forall>t\<in>set ts. snd t \<noteq> AggregateScores paperId \<Longrightarrow>
     unaggregated fhe (exec fhe ts s) paperId"
proof (induction ts arbitrary: s)
  case Nil
  then show ?case by simp
next
  case (Cons t ts)
  have "unaggregated fhe (commit fhe t s) paperId"
    using Cons.prems by (auto simp: commit_def split: sum.splits intro: unaggregated_step)
  with Cons show ?case by simp
qed

lemma publishable_step:
  assumes "publishable fhe s paperId" and "step fhe t s = Inr s'"
    and "snd t \<noteq> PublishPaper paperId" and "\<forall>a b. \<not> isZero fhe (add fhe a b)"
  shows "publishable fhe s' paperId"
proof -
  obtain e c where t: "t = (e, c)" by (cases t)
  show ?thesis
  proof (cases c)
    case (AggregateScores q)
    with assms t show ?thesis
      by (auto simp: publishable_def dest!: aggregateScores_Inr total_of_not_zero
               split: option.splits if_splits)
  qed (use assms t in \<open>auto simp: publishable_def op_defs Let_def split: option.splits if_splits\<close>)
qed

lemma publishable_exec:
  "publishable fhe s paperId \<Longrightarrow> \<forall>t\<in>set ts. snd t \<noteq> PublishPaper paperId \<Longrightarrow>
   \<forall>a b. \<not> isZero fhe (add fhe a b) \<Longrightarrow> publishable fhe (exec fhe ts s) paperId"
proof (induction ts arbitrary: s)
  case Nil
  then show ?case by simp
next
  case (Cons t ts)
  have "publishable fhe (commit fhe t s) paperId"
    using Cons.prems by (auto simp: commit_def split: sum.splits intro: publishable_step)
  with Cons show ?case by simp
qed

lemma publishable_publish:
  assumes "publishable fhe s paperId"
  shows "\<exists>s2. publishPaper fhe paperId s = Inr s2 \<and>
           publishPaper fhe paperId s2 = Inl PaperAlreadyPublished"
  using assms by (auto simp: publishable_def publishPaper_def split: option.splits)

lemma aggregate_publishable:
  assumes "aggregateScores fhe paperId s = Inr s1" and "\<not> published s paperId"
    and "\<forall>a b. \<not> isZero fhe (add fhe a b)"
  shows "publishable fhe s1 paperId"
  using assms
  by (auto simp: publishable_def published_def dest!: aggregateScores_Inr total_of_not_zero)

lemma publish_done_step:
  assumes "publish_done fhe s paperId" and "step fhe t s = Inr s'"
    and "\<forall>a b. \<not> isZero fhe (add fhe a b)"
  shows "publish_done fhe s' paperId"
proof -
  obtain e c where t: "t = (e, c)" by (cases t)
  show ?thesis
  proof (cases c)
    case (AggregateScores q)
    with assms t show ?thesis
      by (auto simp: publish_done_def dest!: aggregateScores_Inr total_of_not_zero
               split: option.splits if_splits)
  qed (use assms t in \<open>auto simp: publish_done_def op_defs Let_def split: option.splits if_splits\<close>)
qed

lemma publish_done_exec:
  "publish_done fhe s paperId \<Longrightarrow> \<forall>a b. \<not> isZero fhe (add fhe a b) \<Longrightarrow>
     publish_done fhe (exec fhe ts s) paperId"
proof (induction ts arbitrary: s)
  case Nil
  then show ?case by simp
next
  case (Cons t ts)
  have "publish_done fhe (commit fhe t s) paperId"
    using Cons.prems by (auto simp: commit_def split: sum.splits intro: publish_done_step)
  with Cons show ?case by simp
qed

lemma publish_done_publish:
  "publish_done fhe s paperId \<Longrightarrow> publishPaper fhe paperId s = Inl PaperAlreadyPublished"
  by (auto simp: publish_done_def publishPaper_def split: option.splits)

lemma publish_gives_done:
  "publishPaper fhe paperId s = Inr s2 \<Longrightarrow> publish_done fhe s2 paperId"
  by (auto simp: publish_done_def publishPaper_def split: option.splits if_splits)

text \<open>
  C3. The library is assumed to keep its handles apart: \<open>isZero\<close> holds of the handle
  \<open>FHE.zero()\<close> and of no handle that \<open>FHE.add\<close> returns. Then, for a paper that exists
  after transactions \<open>ts\<close> with no \<open>aggregateScores\<close> call on it, \<open>publishPaper\<close>
  reverts with "Scores not aggregated". After a successful \<open>aggregateScores\<close> on a paper
  not yet published, and any transactions \<open>ts'\<close> that do not publish it, \<open>publishPaper\<close>
  succeeds, whatever the handles stand for and whether or not any review is verified;
  from then on every \<open>publishPaper\<close> on the paper reverts with "Paper already
  published".
\<close>

theorem publishPaper_gate:
  assumes "isZero fhe (zero fhe)" and "\<forall>a b. \<not> isZero fhe (add fhe a b)"
  shows "(title_of (exec fhe ts init) paperId \<noteq> [] \<and>
          (\<forall>t\<in>set ts. snd t \<noteq> AggregateScores paperId) \<longrightarrow>
            publishPaper fhe paperId (exec fhe ts init) = Inl ScoresNotAggregated) \<and>
         (aggregateScores fhe paperId s = Inr s1 \<and> \<not> published s paperId \<and>
          (\<forall>t\<in>set ts'. snd t \<noteq> PublishPaper paperId) \<longrightarrow>
            (\<exists>s2. publishPaper fhe paperId (exec fhe ts' s1) = Inr s2 \<and>
                  (\<forall>ts''. publishPaper fhe paperId (exec fhe ts'' s2)
                            = Inl PaperAlreadyPublished)))"
proof (intro conjI impI)
  assume a: "title_of (exec fhe ts init) paperId \<noteq> [] \<and>
             (\<forall>t\<in>set ts. snd t \<noteq> AggregateScores paperId)"
  then have "unaggregated fhe (exec fhe ts init) paperId"
    by (simp add: unaggregated_exec unaggregated_init)
  with a assms(1) show "publishPaper fhe paperId (exec fhe ts init) = Inl ScoresNotAggregated"
    by (auto simp: unaggregated_def publishPaper_def title_of_def split: option.splits)
next
  assume b: "aggregateScores fhe paperId s = Inr s1 \<and> \<not> published s paperId \<and>
             (\<forall>t\<in>set ts'. snd t \<noteq> PublishPaper paperId)"
  then have "publishable fhe s1 paperId"
    using assms(2) by (blast intro: aggregate_publishable)
  with b assms(2) have "publishable fhe (exec fhe ts' s1) paperId"
    by (simp add: publishable_exec)
  then obtain s2 where s2: "publishPaper fhe paperId (exec fhe ts' s1) = Inr s2"
    using publishable_publish by blast
  then have "publish_done fhe s2 paperId"
    by (rule publish_gives_done)
  then have "\<forall>ts''. publishPaper fhe paperId (exec fhe ts'' s2) = Inl PaperAlreadyPublished"
    using assms(2) by (simp add: publish_done_exec publish_done_publish)
  with s2 show "\<exists>s2. publishPaper fhe paperId (exec fhe ts' s1) = Inr s2 \<and>
                  (\<forall>ts''. publishPaper fhe paperId (exec fhe ts'' s2)
                            = Inl PaperAlreadyPublished)"
    by blast
qed

theorem publishPaper_gate_witness:
  "isZero toy (zero toy) \<and> title_of demo ''p1'' \<noteq> [] \<and>
   publishPaper toy ''p1'' demo = Inl ScoresNotAggregated \<and>
   aggregateScores toy ''p1'' demo = Inr demo_aggregated \<and> \<not> published demo ''p1'' \<and>
   publishPaper toy ''p1'' demo_aggregated = Inr demo_published \<and>
   publishPaper toy ''p1'' demo_published = Inl PaperAlreadyPublished"
proof -
  have t: "title_of demo ''p1'' \<noteq> []" and n: "\<not> published demo ''p1''"
    by (simp_all add: demo_paper title_of_def published_def)
  have na: "\<forall>t\<in>set demo_calls. snd t \<noteq> AggregateScores ''p1''"
    by (simp add: demo_calls_def)
  note g = publishPaper_gate [OF toy_zero toy_add, of demo_calls "''p1''" demo demo_aggregated "[]"]
  from g t na have 1: "publishPaper toy ''p1'' demo = Inl ScoresNotAggregated"
    by (simp add: demo_def)
  from g demo_aggregate_ok n
  have "\<exists>s2. publishPaper toy ''p1'' demo_aggregated = Inr s2 \<and>
          (\<forall>ts''. publishPaper toy ''p1'' (exec toy ts'' s2) = Inl PaperAlreadyPublished)"
    by simp
  then have "\<forall>ts''. publishPaper toy ''p1'' (exec toy ts'' demo_published) = Inl PaperAlreadyPublished"
    by (simp add: demo_publish_ok)
  then have 2: "publishPaper toy ''p1'' (exec toy [] demo_published) = Inl PaperAlreadyPublished"
    by blast
  from toy_zero t 1 demo_aggregate_ok n demo_publish_ok 2 show ?thesis by simp
qed

lemma total_of_take_flag:
  "total_of fhe (take n (rs[i := (rs ! i)\<lparr>isVerified := b\<rparr>])) = total_of fhe (take n rs)"
proof -
  have "map encryptedScore (rs[i := (rs ! i)\<lparr>isVerified := b\<rparr>]) = map encryptedScore rs"
  proof (cases "i < length rs")
    case True
    then show ?thesis
      by (intro nth_equalityI) (auto simp: nth_list_update)
  next
    case False
    then show ?thesis by (simp add: list_update_beyond)
  qed
  then show ?thesis
    by (simp add: total_of_def take_map [symmetric] del: take_map)
qed

lemma aggregated_from_flag:
  "aggregated_from fhe (p\<lparr>Paper.reviews := (Paper.reviews p)[i := (Paper.reviews p ! i)\<lparr>isVerified := b\<rparr>]\<rparr>)
     = aggregated_from fhe p"
  by (simp add: aggregated_from_def total_of_take_flag)

lemma aggregated_from_snoc:
  "aggregated_from fhe p \<Longrightarrow> aggregated_from fhe (p\<lparr>Paper.reviews := Paper.reviews p @ [r]\<rparr>)"
proof -
  assume "aggregated_from fhe p"
  then obtain n where n: "1 \<le> n" "n \<le> length (Paper.reviews p)"
    "aggregatedScore p = total_of fhe (take n (Paper.reviews p))"
    by (auto simp: aggregated_from_def)
  show ?thesis
    unfolding aggregated_from_def
    by (rule bexI [where x = n]) (use n in auto)
qed

lemma aggregated_from_total:
  "Paper.reviews p \<noteq> [] \<Longrightarrow>
     aggregated_from fhe (p\<lparr>aggregatedScore := total_of fhe (Paper.reviews p)\<rparr>)"
  unfolding aggregated_from_def
  by (rule bexI [where x = "length (Paper.reviews p)"]) (auto simp: Suc_le_eq)

lemma paper_inv_flag:
  "paper_inv fhe p \<Longrightarrow> i < length (Paper.reviews p) \<Longrightarrow>
     paper_inv fhe (p\<lparr>Paper.reviews := (Paper.reviews p)[i := (Paper.reviews p ! i)\<lparr>isVerified := b\<rparr>]\<rparr>)"
  unfolding paper_inv_def aggregated_from_flag by auto

lemma paper_inv_snoc:
  "paper_inv fhe p \<Longrightarrow> title p \<noteq> [] \<Longrightarrow>
     paper_inv fhe (p\<lparr>Paper.reviews := Paper.reviews p @ [r]\<rparr>)"
  using aggregated_from_snoc [of fhe p r] by (auto simp: paper_inv_def)

lemma paper_inv_total:
  "paper_inv fhe p \<Longrightarrow> Paper.reviews p \<noteq> [] \<Longrightarrow> \<forall>a b. \<not> isZero fhe (add fhe a b) \<Longrightarrow>
     paper_inv fhe (p\<lparr>aggregatedScore := total_of fhe (Paper.reviews p)\<rparr>)"
  using aggregated_from_total [of p fhe] total_of_not_zero [of fhe "Paper.reviews p"]
  by (auto simp: paper_inv_def)

lemma paper_inv_publish:
  "paper_inv fhe p \<Longrightarrow> title p \<noteq> [] \<Longrightarrow> \<not> isZero fhe (aggregatedScore p) \<Longrightarrow>
     paper_inv fhe (p\<lparr>isPublished := True\<rparr>)"
  by (auto simp: paper_inv_def aggregated_from_def)

lemma paper_inv_new:
  "paper_inv fhe \<lparr>title = ttl, encryptedContent = h, submitter = a, submissionDate = d,
      reviews = [], aggregatedScore = zero fhe, isPublished = False\<rparr>"
  by (simp add: paper_inv_def)

lemma store_inv_init: "store_inv fhe init"
  by (simp add: store_inv_def init_def)

lemma store_inv_step:
  assumes "store_inv fhe s" and "step fhe t s = Inr s'"
    and "\<forall>a b. \<not> isZero fhe (add fhe a b)"
  shows "store_inv fhe s'"
proof -
  obtain e c where t: "t = (e, c)" by (cases t)
  show ?thesis
  proof (cases c)
    case (SubmitPaper q ttl x pr)
    with assms t show ?thesis
      by (auto simp: store_inv_def submitPaper_def paper_inv_new split: option.splits if_splits)
  next
    case (SubmitReview q x pr cm)
    with assms t show ?thesis
      by (auto simp: store_inv_def submitReview_def Let_def paper_inv_snoc
               split: option.splits if_splits)
  next
    case (AggregateScores q)
    with assms t show ?thesis
      by (auto simp: store_inv_def paper_inv_total dest!: aggregateScores_Inr
               split: if_splits)
  next
    case (PublishPaper q)
    with assms t show ?thesis
      by (auto simp: store_inv_def publishPaper_def paper_inv_publish
               split: option.splits if_splits)
  next
    case (VerifyReview q i cv pr)
    with assms t show ?thesis
      by (auto simp: store_inv_def paper_inv_flag dest!: verifyReview_Inr split: if_splits)
  qed
qed

lemma store_inv_exec:
  "store_inv fhe s \<Longrightarrow> \<forall>a b. \<not> isZero fhe (add fhe a b) \<Longrightarrow> store_inv fhe (exec fhe ts s)"
proof (induction ts arbitrary: s)
  case Nil
  then show ?case by simp
next
  case (Cons t ts)
  have "store_inv fhe (commit fhe t s)"
    using Cons.prems by (auto simp: commit_def split: sum.splits intro: store_inv_step)
  with Cons show ?case by simp
qed

text \<open>
  C5. Under the same assumption on the library, in every state the contract reaches
  from its initial storage: a published paper has an aggregated score that \<open>isZero\<close>
  rejects and that is the sum, from \<open>FHE.zero()\<close>, of the score handles of its first
  \<open>n\<close> reviews for some \<open>n\<close> of at least 1; and the paper stays published after any
  further transactions \<open>ts'\<close>.
\<close>

theorem published_has_aggregate:
  assumes "isZero fhe (zero fhe)" and "\<forall>a b. \<not> isZero fhe (add fhe a b)"
  shows "published (exec fhe ts init) paperId \<longrightarrow>
           (\<exists>p. papers (exec fhe ts init) paperId = Some p \<and>
                \<not> isZero fhe (aggregatedScore p) \<and>
                (\<exists>n\<in>{1..length (Paper.reviews p)}.
                   aggregatedScore p =
                     foldl (add fhe) (zero fhe) (map encryptedScore (take n (Paper.reviews p))))) \<and>
           (\<forall>ts'. published (exec fhe ts' (exec fhe ts init)) paperId)"
proof
  assume pub: "published (exec fhe ts init) paperId"
  then obtain p where p: "papers (exec fhe ts init) paperId = Some p" "isPublished p"
    by (auto simp: published_def split: option.splits)
  have "store_inv fhe (exec fhe ts init)"
    using assms(2) by (simp add: store_inv_exec store_inv_init)
  with p have inv: "paper_inv fhe p"
    by (auto simp: store_inv_def)
  with p assms(1) have nz: "\<not> isZero fhe (aggregatedScore p)" and "title p \<noteq> []"
    and "aggregated_from fhe p"
    by (auto simp: paper_inv_def)
  then have pd: "publish_done fhe (exec fhe ts init) paperId"
    using p by (simp add: publish_done_def)
  have later: "\<forall>ts'. published (exec fhe ts' (exec fhe ts init)) paperId"
  proof
    fix ts'
    have "publish_done fhe (exec fhe ts' (exec fhe ts init)) paperId"
      using pd assms(2) by (rule publish_done_exec)
    then show "published (exec fhe ts' (exec fhe ts init)) paperId"
      by (auto simp: publish_done_def published_def split: option.splits)
  qed
  from \<open>aggregated_from fhe p\<close> have
    "\<exists>n\<in>{1..length (Paper.reviews p)}.
       aggregatedScore p = foldl (add fhe) (zero fhe) (map encryptedScore (take n (Paper.reviews p)))"
    by (simp add: aggregated_from_def total_of_def)
  with p nz later show
    "(\<exists>p. papers (exec fhe ts init) paperId = Some p \<and>
                \<not> isZero fhe (aggregatedScore p) \<and>
                (\<exists>n\<in>{1..length (Paper.reviews p)}.
                   aggregatedScore p =
                     foldl (add fhe) (zero fhe) (map encryptedScore (take n (Paper.reviews p))))) \<and>
           (\<forall>ts'. published (exec fhe ts' (exec fhe ts init)) paperId)"
    by blast
qed

theorem published_has_aggregate_witness:
  "published demo_published ''p1'' \<and>
   map_option aggregatedScore (papers demo_published ''p1'')
     = Some (Sum (Sum (Sum Null (Enc 7)) (Enc 8)) (Enc 9)) \<and>
   published (exec toy [(bob, SubmitPaper ''p1'' ''Again'' 3 [1])] demo_published) ''p1''"
proof -
  have p: "published demo_published ''p1''"
    by (simp add: published_def demo_published_def demo_aggregated_def demo_defs op_defs
        aggregate_loop_drop)
  have a: "map_option aggregatedScore (papers demo_published ''p1'')
     = Some (Sum (Sum (Sum Null (Enc 7)) (Enc 8)) (Enc 9))"
    by (simp add: published_def demo_published_def demo_aggregated_def demo_defs op_defs
        aggregate_loop_drop)
  from published_has_aggregate [OF toy_zero toy_add, of demo_published_calls "''p1''"] p
  have "\<forall>ts'. published (exec toy ts' demo_published) ''p1''"
    by (simp add: demo_published_exec)
  then have "published (exec toy [(bob, SubmitPaper ''p1'' ''Again'' 3 [1])] demo_published) ''p1''"
    by blast
  with p a show ?thesis by simp
qed

subsection \<open>Paper ids\<close>

lemma submitPaper_titled_reverts:
  "title_of s paperId \<noteq> [] \<Longrightarrow>
     submitPaper fhe e paperId ttl c pr s = Inl PaperAlreadyExists"
  by (simp add: submitPaper_def)

text \<open>
  C8 fails on the contract. A paper counts as existing when its title is not empty, and
  \<open>submitPaper\<close> does not ask for a title. A paper submitted under \<open>p1\<close> with the empty
  title is stored, and a second submission under \<open>p1\<close> succeeds and replaces the
  record: title, content handle and submitter all change.
\<close>

theorem submitPaper_overwrites_untitled:
  "\<not> isl (submitPaper toy alice ''p1'' [] 5 [1] init) \<and>
   map_option (\<lambda>p. (title p, encryptedContent p, submitter p)) (papers demo_untitled ''p1'')
     = Some ([], Enc 5, 10) \<and>
   \<not> isl (submitPaper toy bob ''p1'' ''Mine'' 6 [1] demo_untitled) \<and>
   map_option (\<lambda>p. (title p, encryptedContent p, submitter p))
     (papers (commit toy (bob, SubmitPaper ''p1'' ''Mine'' 6 [1]) demo_untitled) ''p1'')
     = Some (''Mine'', Enc 6, 11)"
  by (simp add: demo_untitled_def commit_def init_def toy_def alice_def bob_def op_defs)

subsection \<open>Review indices\<close>

lemma titled_inv_init: "titled_inv init"
  by (simp add: titled_inv_def init_def)

lemma titled_inv_step:
  assumes "titled_inv s" and "step fhe t s = Inr s'"
  shows "titled_inv s'"
proof -
  obtain e c where t: "t = (e, c)" by (cases t)
  from assms show ?thesis
    unfolding t titled_inv_def
    by (cases c) (auto simp: op_defs Let_def split: option.splits if_splits)
qed

lemma titled_inv_commit: "titled_inv s \<Longrightarrow> titled_inv (commit fhe t s)"
  by (auto simp: commit_def split: sum.splits intro: titled_inv_step)

lemma titled_inv_exec: "titled_inv s \<Longrightarrow> titled_inv (exec fhe ts s)"
  by (induction ts arbitrary: s) (simp_all add: titled_inv_commit)

lemma map_content_flag:
  "map review_content (rs[i := (rs ! i)\<lparr>isVerified := b\<rparr>]) = map review_content rs"
proof (cases "i < length rs")
  case True
  then show ?thesis
    by (intro nth_equalityI) (auto simp: nth_list_update review_content_def)
next
  case False
  then show ?thesis by (simp add: list_update_beyond)
qed

lemma contents_step:
  assumes "titled_inv s" and "step fhe t s = Inr s'"
  shows "prefix (contents_of s q) (contents_of s' q)"
proof -
  obtain e c where t: "t = (e, c)" by (cases t)
  show ?thesis
  proof (cases c)
    case (VerifyReview q' i cv pr)
    with assms t show ?thesis
      by (auto simp: contents_of_def reviews_of_def map_content_flag dest!: verifyReview_Inr)
  qed (use assms t in \<open>auto simp: contents_of_def titled_inv_def op_defs Let_def
         split: option.splits if_splits\<close>)
qed

lemma contents_exec:
  "titled_inv s \<Longrightarrow> prefix (contents_of s q) (contents_of (exec fhe ts s) q)"
proof (induction ts arbitrary: s)
  case Nil
  then show ?case by simp
next
  case (Cons t ts)
  have 1: "prefix (contents_of s q) (contents_of (commit fhe t s) q)"
    using Cons.prems by (auto simp: commit_def split: sum.splits intro: contents_step)
  have "prefix (contents_of (commit fhe t s) q) (contents_of (exec fhe ts (commit fhe t s)) q)"
    using Cons.prems by (intro Cons.IH titled_inv_commit)
  with 1 show ?case by (auto intro: prefix_order.trans)
qed

text \<open>
  C9. \<open>submitReview\<close> on a paper without a title reverts with "Paper does not exist".
  A successful \<open>submitReview\<close> appends the review at the end of the paper's review
  array, writes it in the top-level mapping under the key of the index it got, the old
  length of the array, and leaves the arrays of the other papers alone. From the initial
  storage, the reviews of a paper after \<open>ts\<close> are, up to their verification flag, a
  prefix of its reviews after any further transactions \<open>ts'\<close>: a review keeps its
  index, and indices are handed out as 0, 1, 2 and so on without a gap.
\<close>

theorem review_indices:
  "(title_of s paperId = [] \<longrightarrow>
      submitReview fhe e paperId c pr cm s = Inl PaperDoesNotExist) \<and>
   (submitReview fhe e paperId c pr cm s = Inr s' \<longrightarrow>
      (\<exists>r. reviews_of s' paperId = reviews_of s paperId @ [r] \<and>
           ReviewSystem.reviews s' =
             (ReviewSystem.reviews s)(review_key paperId (length (reviews_of s paperId)) \<mapsto> r) \<and>
           (\<forall>q. q \<noteq> paperId \<longrightarrow> reviews_of s' q = reviews_of s q))) \<and>
   prefix (contents_of (exec fhe ts init) q) (contents_of (exec fhe (ts @ ts') init) q)"
proof (intro conjI impI)
  show "title_of s paperId = [] \<Longrightarrow>
      submitReview fhe e paperId c pr cm s = Inl PaperDoesNotExist"
    by (auto simp: title_of_def submitReview_def split: option.splits)
next
  assume "submitReview fhe e paperId c pr cm s = Inr s'"
  from submitReview_Inr [OF this]
  show "\<exists>r. reviews_of s' paperId = reviews_of s paperId @ [r] \<and>
           ReviewSystem.reviews s' =
             (ReviewSystem.reviews s)(review_key paperId (length (reviews_of s paperId)) \<mapsto> r) \<and>
           (\<forall>q. q \<noteq> paperId \<longrightarrow> reviews_of s' q = reviews_of s q)"
    by (auto simp: reviews_of_def)
next
  have "titled_inv (exec fhe ts init)"
    by (simp add: titled_inv_exec titled_inv_init)
  then show "prefix (contents_of (exec fhe ts init) q) (contents_of (exec fhe (ts @ ts') init) q)"
    unfolding exec_append by (rule contents_exec)
qed

theorem review_indices_witness:
  "title_of demo ''p2'' = [] \<and>
   submitReview toy bob ''p2'' 6 [1] ''late'' demo = Inl PaperDoesNotExist \<and>
   submitReview toy bob ''p1'' 6 [1] ''late'' demo = Inr demo_late \<and>
   length (reviews_of demo_late ''p1'') = 4 \<and>
   map_option encryptedScore (ReviewSystem.reviews demo_late (review_key ''p1'' 3)) = Some (Enc 6) \<and>
   prefix (contents_of demo ''p1'')
     (contents_of (exec toy (demo_calls @ [(bob, SubmitReview ''p1'' 6 [1] ''late'')]) init) ''p1'')"
proof -
  have t: "title_of demo ''p2'' = []"
    by (simp add: demo_defs op_defs)
  have n: "length (reviews_of demo ''p1'') = 3"
    by (simp add: reviews_of_def demo_paper)
  note g = review_indices [of demo "''p1''" toy bob 6 "[1]" "''late''" demo_late
      demo_calls "''p1''" "[(bob, SubmitReview ''p1'' 6 [1] ''late'')]"]
  note g2 = review_indices [of demo "''p2''" toy bob 6 "[1]" "''late''" demo_late
      demo_calls "''p1''" "[(bob, SubmitReview ''p1'' 6 [1] ''late'')]"]
  from g2 t have 1: "submitReview toy bob ''p2'' 6 [1] ''late'' demo = Inl PaperDoesNotExist"
    by blast
  from g demo_late_ok obtain r where r: "reviews_of demo_late ''p1'' = reviews_of demo ''p1'' @ [r]"
    "ReviewSystem.reviews demo_late =
       (ReviewSystem.reviews demo)(review_key ''p1'' (length (reviews_of demo ''p1'')) \<mapsto> r)"
    by blast
  from r n have 2: "length (reviews_of demo_late ''p1'') = 4" by simp
  have "last (reviews_of demo_late ''p1'') = r" using r by simp
  moreover have "encryptedScore (last (reviews_of demo_late ''p1'')) = Enc 6"
    by (simp add: demo_late_def demo_defs op_defs)
  ultimately have 3: "map_option encryptedScore
      (ReviewSystem.reviews demo_late (review_key ''p1'' 3)) = Some (Enc 6)"
    using r n by simp
  from g have 4: "prefix (contents_of demo ''p1'')
     (contents_of (exec toy (demo_calls @ [(bob, SubmitReview ''p1'' 6 [1] ''late'')]) init) ''p1'')"
    by (simp add: demo_def)
  from t 1 demo_late_ok 2 3 4 show ?thesis by simp
qed

subsection \<open>The top-level reviews mapping\<close>

lemma stale_inv_init: "stale_inv init"
  by (simp add: stale_inv_def init_def)

lemma stale_inv_step:
  assumes "stale_inv s" and "titled_inv s" and "step fhe t s = Inr s'"
  shows "stale_inv s'"
proof -
  obtain e c where t: "t = (e, c)" by (cases t)
  show ?thesis
  proof (cases c)
    case (SubmitReview q' x pr cm)
    with assms t show ?thesis
      by (auto simp: stale_inv_def less_Suc_eq dest!: submitReview_Inr split: if_splits)
  next
    case (VerifyReview q' i cv pr)
    with assms t show ?thesis
      by (auto simp: stale_inv_def dest!: verifyReview_Inr split: if_splits)
  qed (use assms t in \<open>auto simp: stale_inv_def titled_inv_def op_defs Let_def
         split: option.splits if_splits\<close>)
qed

lemma stale_inv_exec:
  "stale_inv s \<Longrightarrow> titled_inv s \<Longrightarrow> stale_inv (exec fhe ts s)"
proof (induction ts arbitrary: s)
  case Nil
  then show ?case by simp
next
  case (Cons t ts)
  have "stale_inv (commit fhe t s)"
    using Cons.prems by (auto simp: commit_def split: sum.splits intro: stale_inv_step)
  with Cons show ?case by (simp add: titled_inv_commit)
qed

lemma length_be_bytes: "length (be_bytes k n) = k"
  by (induction k arbitrary: n) simp_all

lemma char_of_mod_inj:
  assumes "char_of (a mod 256 :: nat) = char_of (b mod 256 :: nat)"
  shows "a mod 256 = b mod 256"
  using assms by (simp add: char_of_eq_iff take_bit_eq_mod)

lemma be_bytes_inj:
  "n < 256 ^ k \<Longrightarrow> m < 256 ^ k \<Longrightarrow> be_bytes k n = be_bytes k m \<Longrightarrow> n = m"
proof (induction k arbitrary: n m)
  case 0
  then show ?case by simp
next
  case (Suc k)
  from Suc.prems(3) have eq: "be_bytes k (n div 256) = be_bytes k (m div 256)"
    and lo: "char_of (n mod 256) = char_of (m mod 256)"
    by (simp_all add: length_be_bytes)
  have "n div 256 < 256 ^ k" and "m div 256 < 256 ^ k"
    using Suc.prems(1,2) by (simp_all add: less_mult_imp_div_less mult.commute)
  then have hi: "n div 256 = m div 256"
    using eq by (rule Suc.IH)
  from lo have "n mod 256 = m mod 256"
    by (rule char_of_mod_inj)
  with hi show ?case
    by (metis div_mult_mod_eq)
qed

lemma review_key_paper: "review_key p i = review_key q j \<Longrightarrow> p = q"
  by (simp add: review_key_def uint256_be_def length_be_bytes)

lemma review_key_inj:
  "i < 2 ^ 256 \<Longrightarrow> j < 2 ^ 256 \<Longrightarrow> review_key p i = review_key q j \<Longrightarrow> p = q \<and> i = j"
proof -
  assume i: "i < 2 ^ 256" and j: "j < 2 ^ 256" and k: "review_key p i = review_key q j"
  have p: "(256 :: nat) ^ 32 = 2 ^ 256" by simp
  from k have "p = q" by (rule review_key_paper)
  with k have "be_bytes 32 i = be_bytes 32 j"
    by (simp add: review_key_def uint256_be_def)
  with i j have "i = j"
    by (intro be_bytes_inj [of i 32 j]) (simp_all only: p)
  with \<open>p = q\<close> show ?thesis by simp
qed

lemma snapshot_inv_init: "snapshot_inv init"
  by (simp add: snapshot_inv_def init_def)

lemma nth_flag_update:
  "j < length rs \<Longrightarrow>
     (rs[i := (rs ! i)\<lparr>isVerified := b\<rparr>] ! j)\<lparr>isVerified := False\<rparr> = (rs ! j)\<lparr>isVerified := False\<rparr>"
  by (cases "i = j") simp_all

lemma snapshot_inv_submitReview:
  assumes inv: "snapshot_inv s" and ok: "submitReview fhe e paperId c pr cm s = Inr s'"
  shows "snapshot_inv s'"
  unfolding snapshot_inv_def
proof (intro allI impI)
  fix q p' i
  assume p': "papers s' q = Some p'" and i: "i < length (Paper.reviews p')"
    and b: "length (Paper.reviews p') \<le> 2 ^ 256"
  from submitReview_Inr [OF ok] obtain p h where p: "papers s paperId = Some p"
    and s': "s' = s\<lparr>papers := (papers s)(paperId \<mapsto> p\<lparr>Paper.reviews := Paper.reviews p @
                      [\<lparr>encryptedScore = h, encryptedComments = cm, reviewer = msg_sender e,
                        submissionDate = block_timestamp e, isVerified = False\<rparr>]\<rparr>),
                   ReviewSystem.reviews := (ReviewSystem.reviews s)
                     (review_key paperId (length (Paper.reviews p)) \<mapsto>
                        \<lparr>encryptedScore = h, encryptedComments = cm, reviewer = msg_sender e,
                         submissionDate = block_timestamp e, isVerified = False\<rparr>),
                   acl := acl s @ [AllowThis h, MakePubliclyDecryptable h],
                   events := events s @ [ReviewSubmitted paperId (msg_sender e)]\<rparr>"
    by blast
  show "ReviewSystem.reviews s' (review_key q i) = Some ((Paper.reviews p' ! i)\<lparr>isVerified := False\<rparr>)"
  proof (cases "q = paperId")
    case False
    then have k: "review_key q i \<noteq> review_key paperId (length (Paper.reviews p))"
      using review_key_paper by blast
    from False p' have "papers s q = Some p'" by (simp add: s')
    with inv i b have "ReviewSystem.reviews s (review_key q i)
        = Some ((Paper.reviews p' ! i)\<lparr>isVerified := False\<rparr>)"
      by (simp add: snapshot_inv_def)
    with k show ?thesis by (simp add: s')
  next
    case True
    with p' have rs: "Paper.reviews p' = Paper.reviews p @
        [\<lparr>encryptedScore = h, encryptedComments = cm, reviewer = msg_sender e,
          submissionDate = block_timestamp e, isVerified = False\<rparr>]"
      by (auto simp: s')
    show ?thesis
    proof (cases "i = length (Paper.reviews p)")
      case True
      with \<open>q = paperId\<close> show ?thesis by (simp add: s' rs)
    next
      case False
      with i rs have il: "i < length (Paper.reviews p)" by simp
      from b rs have bl: "length (Paper.reviews p) \<le> 2 ^ 256" by simp
      from b rs have "length (Paper.reviews p) < 2 ^ 256" by simp
      moreover from il this have "i < 2 ^ 256" by simp
      ultimately have k: "review_key q i \<noteq> review_key paperId (length (Paper.reviews p))"
        using review_key_inj [of i "length (Paper.reviews p)" q paperId] False by blast
      from inv p il bl \<open>q = paperId\<close> have "ReviewSystem.reviews s (review_key q i)
          = Some ((Paper.reviews p ! i)\<lparr>isVerified := False\<rparr>)"
        by (simp add: snapshot_inv_def)
      with k il show ?thesis by (simp add: s' rs nth_append)
    qed
  qed
qed

lemma snapshot_inv_step:
  assumes "snapshot_inv s" and "titled_inv s" and "step fhe t s = Inr s'"
  shows "snapshot_inv s'"
proof -
  obtain e c where t: "t = (e, c)" by (cases t)
  show ?thesis
  proof (cases c)
    case (SubmitReview q' x pr cm)
    with assms t show ?thesis
      by (auto intro: snapshot_inv_submitReview)
  next
    case (VerifyReview q' i cv pr)
    with assms t show ?thesis
      by (auto simp: snapshot_inv_def nth_flag_update dest!: verifyReview_Inr split: if_splits)
  qed (use assms t in \<open>auto simp: snapshot_inv_def titled_inv_def op_defs Let_def
         split: option.splits if_splits\<close>)
qed

lemma snapshot_inv_exec:
  "snapshot_inv s \<Longrightarrow> titled_inv s \<Longrightarrow> snapshot_inv (exec fhe ts s)"
proof (induction ts arbitrary: s)
  case Nil
  then show ?case by simp
next
  case (Cons t ts)
  have "snapshot_inv (commit fhe t s)"
    using Cons.prems by (auto simp: commit_def split: sum.splits intro: snapshot_inv_step)
  with Cons show ?case by (simp add: titled_inv_commit)
qed

text \<open>
  C10. In every state reached from the initial storage, no entry of the top-level
  \<open>reviews\<close> mapping has \<open>isVerified\<close> set; a review that \<open>getReviewDetails\<close> reports as
  verified has an entry under its key with \<open>isVerified\<close> false; while the review array
  of the paper holds at most \<open>2 ^ 256\<close> reviews (the range of the index in the key), that
  entry is the review as \<open>getReviewDetails\<close> reports it, except for the flag; and a
  successful \<open>verifyReview\<close> leaves the mapping as it was.
\<close>

theorem reviews_mapping_stale:
  "(\<forall>k r. ReviewSystem.reviews (exec fhe ts init) k = Some r \<longrightarrow> \<not> isVerified r) \<and>
   (review_verified (exec fhe ts init) paperId i \<longrightarrow>
      (\<exists>r. ReviewSystem.reviews (exec fhe ts init) (review_key paperId i) = Some r \<and>
           \<not> isVerified r)) \<and>
   (getReviewDetails paperId i (exec fhe ts init) = Inr (sc, cm, rv, dt, v) \<and>
    length (reviews_of (exec fhe ts init) paperId) \<le> 2 ^ 256 \<longrightarrow>
      ReviewSystem.reviews (exec fhe ts init) (review_key paperId i) =
        Some \<lparr>encryptedScore = sc, encryptedComments = cm, reviewer = rv,
              submissionDate = dt, isVerified = False\<rparr>) \<and>
   (verifyReview fhe paperId i cv pr s = Inr s' \<longrightarrow>
      ReviewSystem.reviews s' = ReviewSystem.reviews s)"
proof -
  let ?s = "exec fhe ts init"
  have inv: "stale_inv ?s"
    by (simp add: stale_inv_exec stale_inv_init titled_inv_init)
  then have 1: "\<forall>k r. ReviewSystem.reviews ?s k = Some r \<longrightarrow> \<not> isVerified r"
    by (simp add: stale_inv_def)
  have 2: "review_verified ?s paperId i \<longrightarrow>
      (\<exists>r. ReviewSystem.reviews ?s (review_key paperId i) = Some r \<and> \<not> isVerified r)"
    using inv unfolding stale_inv_def review_verified_iff by fastforce
  have snap: "snapshot_inv ?s"
    by (simp add: snapshot_inv_exec snapshot_inv_init titled_inv_init)
  have 3: "getReviewDetails paperId i ?s = Inr (sc, cm, rv, dt, v) \<and>
      length (reviews_of ?s paperId) \<le> 2 ^ 256 \<longrightarrow>
      ReviewSystem.reviews ?s (review_key paperId i) =
        Some \<lparr>encryptedScore = sc, encryptedComments = cm, reviewer = rv,
              submissionDate = dt, isVerified = False\<rparr>"
  proof
    assume a: "getReviewDetails paperId i ?s = Inr (sc, cm, rv, dt, v) \<and>
      length (reviews_of ?s paperId) \<le> 2 ^ 256"
    then obtain p where p: "papers ?s paperId = Some p" "i < length (Paper.reviews p)"
      and r: "sc = encryptedScore (Paper.reviews p ! i)"
        "cm = encryptedComments (Paper.reviews p ! i)" "rv = reviewer (Paper.reviews p ! i)"
        "dt = Review.submissionDate (Paper.reviews p ! i)"
      by (auto simp: getReviewDetails_def Let_def split: option.splits if_splits)
    from a p have "length (Paper.reviews p) \<le> 2 ^ 256"
      by (simp add: reviews_of_def)
    with snap p have "ReviewSystem.reviews ?s (review_key paperId i)
        = Some ((Paper.reviews p ! i)\<lparr>isVerified := False\<rparr>)"
      by (simp add: snapshot_inv_def)
    with r show "ReviewSystem.reviews ?s (review_key paperId i) =
        Some \<lparr>encryptedScore = sc, encryptedComments = cm, reviewer = rv,
              submissionDate = dt, isVerified = False\<rparr>"
      by simp
  qed
  have 4: "verifyReview fhe paperId i cv pr s = Inr s' \<longrightarrow>
      ReviewSystem.reviews s' = ReviewSystem.reviews s"
    by (auto dest!: verifyReview_Inr)
  from 1 2 3 4 show ?thesis by blast
qed

theorem reviews_mapping_stale_witness:
  "getReviewDetails ''p1'' 0 demo_verified = Inr (Enc 7, ''good'', 11, 2000, True) \<and>
   length (reviews_of demo_verified ''p1'') \<le> 2 ^ 256 \<and>
   ReviewSystem.reviews demo_verified (review_key ''p1'' 0) =
     Some \<lparr>encryptedScore = Enc 7, encryptedComments = ''good'', reviewer = 11,
           submissionDate = 2000, isVerified = False\<rparr>"
proof -
  have l: "length (reviews_of demo_verified ''p1'') \<le> 2 ^ 256"
    by (simp add: demo_defs op_defs)
  from reviews_mapping_stale [of toy demo_verified_calls "''p1''" 0 "Enc 7" "''good''" 11 2000 True]
    demo_verified_details l
  have "ReviewSystem.reviews demo_verified (review_key ''p1'' 0) =
     Some \<lparr>encryptedScore = Enc 7, encryptedComments = ''good'', reviewer = 11,
           submissionDate = 2000, isVerified = False\<rparr>"
    by (simp add: demo_verified_exec)
  with demo_verified_details l show ?thesis by simp
qed

end
